theory Spec2Isabelle
  imports Complex_Main
begin

section \<open>The recognition loop of \<^verbatim>\<open>inference.py\<close> and \<^verbatim>\<open>deploy_pi.py\<close>\<close>

text \<open>
  Both front-ends run the same loop body over the camera frames. Per frame the body
  sees either no hand (\<^verbatim>\<open>landmarks is None\<close>) or the classifier's top label with its
  confidence, and it reads the clock when the buffer is stable. Timestamps,
  confidences and landmark coordinates are modelled as real numbers: the rounding of
  the machine floats is not part of the model.
\<close>

type_synonym label = string

record config =
  confidence_threshold :: real
  stability_frames :: nat
  cooldown_seconds :: real

text \<open>The three recognition variables of \<^verbatim>\<open>main\<close>.\<close>

record recog =
  stability_buffer :: "label list"
  last_announced_sign :: "label option"
  last_announcement_time :: real

definition initial :: recog where
  "initial = \<lparr>stability_buffer = [], last_announced_sign = None, last_announcement_time = 0\<rparr>"

text \<open>What one frame gives the loop body: \<^verbatim>\<open>labels[max_idx]\<close> and
  \<^verbatim>\<open>prediction[max_idx]\<close>, or no landmarks at all.\<close>

datatype frame = NoHands | Prediction label real

subsection \<open>Stability buffer\<close>

text \<open>\<^verbatim>\<open>stability_buffer.append(predicted_sign)\<close>, then
  \<^verbatim>\<open>if len(stability_buffer) > stability_frames: stability_buffer.pop(0)\<close>.
  The buffer is non-empty after the append, so \<^verbatim>\<open>pop(0)\<close> never raises.\<close>

definition push_label :: "nat \<Rightarrow> label \<Rightarrow> label list \<Rightarrow> label list" where
  "push_label n sign buf =
     (let buf1 = buf @ [sign] in if length buf1 > n then tl buf1 else buf1)"

text \<open>\<^verbatim>\<open>len(stability_buffer) == stability_frames and
  all(s == predicted_sign for s in stability_buffer)\<close>.\<close>

definition is_stable :: "nat \<Rightarrow> label \<Rightarrow> label list \<Rightarrow> bool" where
  "is_stable n sign buf \<longleftrightarrow> length buf = n \<and> list_all (\<lambda>s. s = sign) buf"

text \<open>One confident observation: the new buffer and whether it is stable.\<close>

definition observe :: "nat \<Rightarrow> label \<Rightarrow> label list \<Rightarrow> label list \<times> bool" where
  "observe n sign buf = (let buf2 = push_label n sign buf in (buf2, is_stable n sign buf2))"

text \<open>Observing a run of labels one after the other; the answers are collected.\<close>

fun observe_all :: "nat \<Rightarrow> label list \<Rightarrow> label list \<Rightarrow> label list \<times> bool list" where
  "observe_all n [] buf = (buf, [])"
| "observe_all n (sign # signs) buf =
     (let (buf1, r) = observe n sign buf;
          (buf2, rs) = observe_all n signs buf1
      in (buf2, r # rs))"

subsection \<open>Cooldown gate\<close>

text \<open>\<^verbatim>\<open>predicted_sign != last_announced_sign or
  (current_time - last_announcement_time) > cooldown_seconds\<close>. The last announced
  sign is \<^verbatim>\<open>None\<close> until the first announcement, and no label equals \<^verbatim>\<open>None\<close>.\<close>

definition should_announce :: "real \<Rightarrow> label \<Rightarrow> real \<Rightarrow> recog \<Rightarrow> bool" where
  "should_announce cooldown sign now st \<longleftrightarrow>
     Some sign \<noteq> last_announced_sign st \<or> now - last_announcement_time st > cooldown"

text \<open>The gate with its two assignments
  \<^verbatim>\<open>last_announced_sign = predicted_sign\<close> and
  \<^verbatim>\<open>last_announcement_time = current_time\<close>.\<close>

definition gate :: "real \<Rightarrow> label \<Rightarrow> real \<Rightarrow> recog \<Rightarrow> bool \<times> recog" where
  "gate cooldown sign now st =
     (if should_announce cooldown sign now st
      then (True, st\<lparr>last_announced_sign := Some sign, last_announcement_time := now\<rparr>)
      else (False, st))"

subsection \<open>The loop body\<close>

text \<open>One frame at clock reading \<open>now\<close>. The second component is the announcement
  handed to the speech engine in this frame, if any.\<close>

definition process_frame ::
  "config \<Rightarrow> real \<Rightarrow> frame \<Rightarrow> recog \<Rightarrow> recog \<times> (label \<times> real) option" where
  "process_frame cfg now fr st =
     (case fr of
        NoHands \<Rightarrow> (st\<lparr>stability_buffer := []\<rparr>, None)
      | Prediction sign confidence \<Rightarrow>
          if confidence \<ge> confidence_threshold cfg then
            (let (buf, stable) = observe (stability_frames cfg) sign (stability_buffer st);
                 st1 = st\<lparr>stability_buffer := buf\<rparr>
             in if stable then
                  (let (fired, st2) = gate (cooldown_seconds cfg) sign now st1
                   in if fired then (st2\<lparr>stability_buffer := []\<rparr>, Some (sign, confidence))
                      else (st2, None))
                else (st1, None))
          else (st\<lparr>stability_buffer := []\<rparr>, None))"

text \<open>The loop over a finite prefix of the frame stream, each frame with its clock
  reading; the announcements are collected with the time of their frame.\<close>

fun run :: "config \<Rightarrow> (real \<times> frame) list \<Rightarrow> recog \<Rightarrow> recog \<times> (real \<times> label \<times> real) list" where
  "run cfg [] st = (st, [])"
| "run cfg ((now, fr) # rest) st =
     (let (st1, ev) = process_frame cfg now fr st;
          (st2, evs) = run cfg rest st1
      in (st2, (case ev of None \<Rightarrow> evs | Some a \<Rightarrow> (now, a) # evs)))"

subsection \<open>The threshold test of \<^verbatim>\<open>inference.py\<close>\<close>

text \<open>
  \<^verbatim>\<open>deploy_pi.py\<close> converts the confidence with \<^verbatim>\<open>float()\<close> before the test
  \<^verbatim>\<open>confidence >= confidence_threshold\<close>: two doubles are compared, which is exact, and
  \<open>process_frame\<close> is its loop body. \<^verbatim>\<open>inference.py\<close> keeps the \<^verbatim>\<open>np.float32\<close> element of
  the prediction array. From NumPy 2 on, a Python float that meets a \<^verbatim>\<open>np.float32\<close>
  takes its type: the threshold is rounded to float32 and the comparison is made
  there. Older versions compare in double precision, as \<open>process_frame\<close> does.
\<close>

text \<open>Rounding to the nearest integer, a tie going to the even one.\<close>

definition round_half_even :: "real \<Rightarrow> int" where
  "round_half_even x =
     (let f = \<lfloor>x\<rfloor>; r = x - of_int f
      in if r < 1 / 2 then f else if 1 / 2 < r then f + 1 else if even f then f else f + 1)"

text \<open>The float32 nearest to a real number: 24 significant bits, the exponent not
  below -126, ties to the even significand. A result of \<open>2 ^ 128\<close> or more stands for
  infinity; no float32 confidence reaches it.\<close>

definition float32 :: "real \<Rightarrow> real" where
  "float32 x =
     (if x = 0 then 0
      else let e = max \<lfloor>log 2 \<bar>x\<bar>\<rfloor> (- 126);
               ulp = 2 powi (e - 23)
           in of_int (round_half_even (x / ulp)) * ulp)"

text \<open>The loop body of \<^verbatim>\<open>inference.py\<close> under NumPy 2: the same statements, the
  threshold of the test being the rounded one.\<close>

definition process_frame_float32 ::
  "config \<Rightarrow> real \<Rightarrow> frame \<Rightarrow> recog \<Rightarrow> recog \<times> (label \<times> real) option" where
  "process_frame_float32 cfg now fr st =
     process_frame (cfg\<lparr>confidence_threshold := float32 (confidence_threshold cfg)\<rparr>) now fr st"

subsection \<open>The scenario of the specification's end-to-end test\<close>

text \<open>Threshold 0.7, three stability frames, two seconds of cooldown; every frame is
  ``Hello'' at confidence 0.9.\<close>

definition scenario_cfg :: config where
  "scenario_cfg = \<lparr>confidence_threshold = 7/10, stability_frames = 3, cooldown_seconds = 2\<rparr>"

definition hello :: "real \<Rightarrow> real \<times> frame" where
  "hello t = (t, Prediction ''Hello'' (9/10))"

text \<open>The six frames at t = 0, 0.1, ..., 0.5.\<close>

definition scenario_start :: "(real \<times> frame) list" where
  "scenario_start = [hello 0, hello (1/10), hello (2/10), hello (3/10), hello (4/10), hello (5/10)]"

text \<open>The sign is held on: three more frames, the last at t = 2.3.\<close>

definition scenario_held :: "(real \<times> frame) list" where
  "scenario_held = scenario_start @ [hello (21/10), hello (22/10), hello (23/10)]"

text \<open>The hand leaves the picture at t = 1 and a new run completes at t = 2.3.\<close>

definition scenario_fresh :: "(real \<times> frame) list" where
  "scenario_fresh = scenario_start @ [(1, NoHands), hello (21/10), hello (22/10), hello (23/10)]"

text \<open>The same configuration as the program holds it: the threshold is the double
  nearest to 0.7. The float32 nearest to 0.7 is \<open>11744051 / 2 ^ 24\<close>, a little less.\<close>

definition double_cfg :: config where
  "double_cfg = \<lparr>confidence_threshold = 3152519739159347 / 4503599627370496,
                  stability_frames = 3, cooldown_seconds = 2\<rparr>"

definition just_below :: real where
  "just_below = 11744051 / 16777216"

section \<open>Landmark normalization of \<^verbatim>\<open>utils.py\<close>\<close>

text \<open>
  A landmark vector is a one-dimensional numpy array of coordinates. Arrays are
  objects: \<^verbatim>\<open>normalize_landmarks\<close> copies its argument and subtracts in place in the
  copy. The store lists the arrays that exist, an array's address being its position;
  a new array is put at the end.
\<close>

datatype error = IndexError

type_synonym ndarray = "real list"

type_synonym store = "ndarray list"

definition alloc :: "store \<Rightarrow> ndarray \<Rightarrow> store \<times> nat" where
  "alloc h xs = (h @ [xs], length h)"

text \<open>\<^verbatim>\<open>landmarks[i]\<close> for an index that is not negative: out of range raises.\<close>

definition getitem :: "ndarray \<Rightarrow> nat \<Rightarrow> error + real" where
  "getitem xs i = (if i < length xs then Inr (xs ! i) else Inl IndexError)"

text \<open>\<^verbatim>\<open>landmarks[i] -= w\<close>.\<close>

definition isub :: "ndarray \<Rightarrow> nat \<Rightarrow> real \<Rightarrow> error + ndarray" where
  "isub xs i w = (if i < length xs then Inr (xs[i := xs ! i - w]) else Inl IndexError)"

text \<open>\<^verbatim>\<open>landmarks[start:stop]\<close> with \<open>0 \<le> start \<le> stop\<close>: a slice is cut at the end of
  the array and never raises.\<close>

definition slice :: "ndarray \<Rightarrow> nat \<Rightarrow> nat \<Rightarrow> ndarray" where
  "slice xs start stop = take (stop - start) (drop start xs)"

definition np_any :: "ndarray \<Rightarrow> bool" where
  "np_any xs = list_ex (\<lambda>v. v \<noteq> 0) xs"

text \<open>\<^verbatim>\<open>range(start, stop, 3)\<close>.\<close>

definition range3 :: "nat \<Rightarrow> nat \<Rightarrow> nat list" where
  "range3 start stop = map (\<lambda>k. start + 3 * k) [0..<(stop - start + 2) div 3]"

text \<open>The inner loop \<^verbatim>\<open>for i in range(start_idx, end_idx, 3)\<close> with its three
  subtractions; the wrist coordinates were read before the loop.\<close>

fun subtract_wrist :: "nat list \<Rightarrow> real \<Rightarrow> real \<Rightarrow> real \<Rightarrow> ndarray \<Rightarrow> error + ndarray" where
  "subtract_wrist [] wrist_x wrist_y wrist_z landmarks = Inr landmarks"
| "subtract_wrist (i # rest) wrist_x wrist_y wrist_z landmarks =
     (case isub landmarks i wrist_x of
        Inl e \<Rightarrow> Inl e
      | Inr l1 \<Rightarrow>
          (case isub l1 (i + 1) wrist_y of
             Inl e \<Rightarrow> Inl e
           | Inr l2 \<Rightarrow>
               (case isub l2 (i + 2) wrist_z of
                  Inl e \<Rightarrow> Inl e
                | Inr l3 \<Rightarrow> subtract_wrist rest wrist_x wrist_y wrist_z l3)))"

text \<open>The body of \<^verbatim>\<open>for hand_idx in range(2)\<close>.\<close>

definition normalize_hand :: "nat \<Rightarrow> ndarray \<Rightarrow> error + ndarray" where
  "normalize_hand hand_idx landmarks =
     (let start_idx = hand_idx * 63;
          end_idx = start_idx + 63
      in if np_any (slice landmarks start_idx end_idx) then
           (case getitem landmarks start_idx of
              Inl e \<Rightarrow> Inl e
            | Inr wrist_x \<Rightarrow>
                (case getitem landmarks (start_idx + 1) of
                   Inl e \<Rightarrow> Inl e
                 | Inr wrist_y \<Rightarrow>
                     (case getitem landmarks (start_idx + 2) of
                        Inl e \<Rightarrow> Inl e
                      | Inr wrist_z \<Rightarrow>
                          subtract_wrist (range3 start_idx end_idx)
                            wrist_x wrist_y wrist_z landmarks)))
         else Inr landmarks)"

fun normalize_hands :: "nat list \<Rightarrow> ndarray \<Rightarrow> error + ndarray" where
  "normalize_hands [] landmarks = Inr landmarks"
| "normalize_hands (hand_idx # rest) landmarks =
     (case normalize_hand hand_idx landmarks of
        Inl e \<Rightarrow> Inl e
      | Inr l1 \<Rightarrow> normalize_hands rest l1)"

text \<open>\<^verbatim>\<open>normalize_landmarks\<close>: \<^verbatim>\<open>landmarks = landmarks.copy()\<close> allocates the copy, the
  two hands are normalized in it, and its address is returned. An exception leaves
  the function without a result.\<close>

definition normalize_landmarks :: "store \<Rightarrow> nat \<Rightarrow> error + store \<times> nat" where
  "normalize_landmarks h a =
     (let (h1, landmarks) = alloc h (h ! a)
      in case normalize_hands [0, 1] (h1 ! landmarks) of
           Inl e \<Rightarrow> Inl e
         | Inr xs \<Rightarrow> Inr (h1[landmarks := xs], landmarks))"

subsection \<open>Building the vector in \<^verbatim>\<open>extract_landmarks\<close>\<close>

text \<open>The detector's result is the list of detected hands, each a list of landmarks
  with \<open>x\<close>, \<open>y\<close> and \<open>z\<close>; no detection is the empty list. The coordinates of at
  most two hands are written one after the other.\<close>

type_synonym landmark = "real \<times> real \<times> real"

definition coordinates :: "landmark list list \<Rightarrow> real list" where
  "coordinates hands =
     concat (map (\<lambda>hand. concat (map (\<lambda>(x, y, z). [x, y, z]) hand)) (take 2 hands))"

text \<open>\<^verbatim>\<open>while len(landmarks) < 126: landmarks.append(0.0)\<close>.\<close>

definition pad :: "real list \<Rightarrow> real list" where
  "pad landmarks = landmarks @ replicate (126 - length landmarks) 0"

text \<open>\<^verbatim>\<open>np.array(landmarks[:126])\<close> is a new array, which is then normalized; the
  result is \<^verbatim>\<open>None\<close> when no hand was detected.\<close>

definition extract_landmarks :: "store \<Rightarrow> landmark list list \<Rightarrow> error + store \<times> nat option" where
  "extract_landmarks h hands =
     (if hands \<noteq> [] then
        (let (h1, landmarks_array) = alloc h (take 126 (pad (coordinates hands)))
         in case normalize_landmarks h1 landmarks_array of
              Inl e \<Rightarrow> Inl e
            | Inr (h2, normalized) \<Rightarrow> Inr (h2, Some normalized))
      else Inr (h, None))"

subsection \<open>Presence of a hand and the closed form of the loops\<close>

text \<open>Hand \<open>k\<close> is present in a vector when the test of \<^verbatim>\<open>normalize_landmarks\<close> finds a
  non-zero element in its slice.\<close>

definition present :: "ndarray \<Rightarrow> nat \<Rightarrow> bool" where
  "present v k \<longleftrightarrow> np_any (slice v (k * 63) (k * 63 + 63))"

text \<open>What the inner loop has computed when it ends: the wrist coordinate of the same
  axis is subtracted from each element between \<open>s\<close> and \<open>e\<close>.\<close>

definition wrist_coord :: "nat \<Rightarrow> real \<Rightarrow> real \<Rightarrow> real \<Rightarrow> real" where
  "wrist_coord c wx wy wz = (if c mod 3 = 0 then wx else if c mod 3 = 1 then wy else wz)"

definition shifted :: "nat \<Rightarrow> nat \<Rightarrow> real \<Rightarrow> real \<Rightarrow> real \<Rightarrow> ndarray \<Rightarrow> ndarray" where
  "shifted s e wx wy wz xs =
     map (\<lambda>j. if s \<le> j \<and> j < e then xs ! j - wrist_coord (j - s) wx wy wz else xs ! j)
       [0..<length xs]"

definition hand_shift :: "nat \<Rightarrow> ndarray \<Rightarrow> ndarray" where
  "hand_shift k v =
     shifted (k * 63) (k * 63 + 63) (v ! (k * 63)) (v ! (k * 63 + 1)) (v ! (k * 63 + 2)) v"

definition both_hands :: "ndarray \<Rightarrow> ndarray" where
  "both_hands v =
     (let v1 = (if present v 0 then hand_shift 0 v else v)
      in if present v 1 then hand_shift 1 v1 else v1)"

subsection \<open>Sample vectors\<close>

text \<open>A hand of which only the wrist, at (1, 2, 3), is away from the origin; this is
  also what padding makes of a detection with a single landmark.\<close>

definition one_landmark :: ndarray where
  "one_landmark = [1, 2, 3] @ replicate 123 0"

definition padded_normalized :: ndarray where
  "padded_normalized = [0, 0, 0] @ concat (replicate 20 [- 1, - 2, - 3]) @ replicate 63 0"

text \<open>A first hand whose 21 landmarks all lie at (1, 1, 1), and no second hand.\<close>

definition coincident :: ndarray where
  "coincident = replicate 63 1 @ replicate 63 0"

text \<open>A vector of 63 elements: one hand, and the slots of the second hand missing.\<close>

definition short_vector :: ndarray where
  "short_vector = replicate 63 1"

section \<open>Properties of the recognition loop\<close>

lemmas scenario_simps =
  scenario_cfg_def hello_def scenario_start_def scenario_held_def scenario_fresh_def
  initial_def process_frame_def observe_def push_label_def is_stable_def gate_def
  should_announce_def Let_def

subsection \<open>Stability buffer\<close>

lemma push_label_length: "length buf \<le> n \<Longrightarrow> length (push_label n sign buf) \<le> n"
  by (auto simp: push_label_def Let_def)

lemma push_label_cases:
  "push_label n sign buf = (if length buf < n then buf @ [sign] else tl (buf @ [sign]))"
  by (auto simp: push_label_def Let_def)

lemma observe_all_replicate:
  "j + k \<le> n \<Longrightarrow>
   observe_all n (replicate k sign) (replicate j sign) =
     (replicate (j + k) sign, map (\<lambda>i. j + i + 1 = n) [0..<k])"
proof (induction k arbitrary: j)
  case 0
  then show ?case by simp
next
  case (Suc k)
  have push: "push_label n sign (replicate j sign) = replicate (Suc j) sign"
    using Suc.prems by (simp add: push_label_def Let_def replicate_append_same)
  have st: "is_stable n sign (replicate (Suc j) sign) \<longleftrightarrow> Suc j = n"
    by (simp add: is_stable_def list_all_iff)
  have "Suc j + k \<le> n" using Suc.prems by simp
  from Suc.IH[OF this] have IH: "observe_all n (replicate k sign) (replicate (Suc j) sign) =
     (replicate (Suc j + k) sign, map (\<lambda>i. Suc j + i + 1 = n) [0..<k])" .
  have m: "map (\<lambda>i. j + i + 1 = n) [0..<Suc k] = (Suc j = n) # map (\<lambda>i. Suc j + i + 1 = n) [0..<k]"
    by (simp add: upt_rec[of 0 "Suc k"] map_Suc_upt[symmetric] del: upt_Suc)
  have obs: "observe n sign (replicate j sign) = (replicate (Suc j) sign, Suc j = n)"
    unfolding observe_def Let_def push st ..
  have "observe_all n (replicate (Suc k) sign) (replicate j sign) =
          (replicate (Suc j + k) sign, (Suc j = n) # map (\<lambda>i. Suc j + i + 1 = n) [0..<k])"
    unfolding replicate_Suc observe_all.simps obs Let_def prod.case IH[unfolded replicate_Suc] ..
  then show ?case unfolding m by simp
qed

lemma map_last_true:
  "1 \<le> n \<Longrightarrow> map (\<lambda>i. i + 1 = n) [0..<n] = replicate (n - 1) False @ [True]"
proof -
  assume "1 \<le> n"
  then obtain m where n: "n = Suc m" by (cases n) auto
  have "map (\<lambda>i. i + 1 = Suc m) [0..<m] = replicate m False"
    by (rule nth_equalityI) auto
  then show ?thesis by (simp add: n)
qed

text \<open>
  Claim C1. For a capacity \<open>n \<ge> 1\<close>, observing a confident label appends it to the
  buffer and drops the oldest entry when the length exceeds \<open>n\<close>; the answer is
  ``stable'' exactly when the new buffer has length \<open>n\<close> and each of its entries is
  the label just appended. Feeding one label \<open>n\<close> times into the empty buffer
  answers \<open>False\<close> on the first \<open>n - 1\<close> observations and \<open>True\<close> on the last.
\<close>

theorem observe_stable_iff:
  assumes "1 \<le> n"
  shows "fst (observe n sign buf) =
           (if length (buf @ [sign]) > n then tl (buf @ [sign]) else buf @ [sign])
       \<and> (snd (observe n sign buf) \<longleftrightarrow>
            length (fst (observe n sign buf)) = n \<and> (\<forall>s \<in> set (fst (observe n sign buf)). s = sign))
       \<and> snd (observe_all n (replicate n sign) []) = replicate (n - 1) False @ [True]"
proof -
  have a: "fst (observe n sign buf) =
           (if length (buf @ [sign]) > n then tl (buf @ [sign]) else buf @ [sign])"
    by (simp add: observe_def push_label_def Let_def)
  have b: "snd (observe n sign buf) \<longleftrightarrow>
            length (fst (observe n sign buf)) = n \<and> (\<forall>s \<in> set (fst (observe n sign buf)). s = sign)"
    by (simp add: observe_def Let_def is_stable_def list_all_iff)
  have "observe_all n (replicate n sign) (replicate 0 sign) =
     (replicate (0 + n) sign, map (\<lambda>i. 0 + i + 1 = n) [0..<n])"
    by (rule observe_all_replicate) simp
  then have c: "snd (observe_all n (replicate n sign) []) = replicate (n - 1) False @ [True]"
    using map_last_true[OF assms] by simp
  from a b c show ?thesis by blast
qed

theorem observe_stable_iff_witness:
  "snd (observe_all 3 (replicate 3 ''A'') []) = [False, False, True]
   \<and> observe 3 ''A'' [''B'', ''A'', ''A''] = ([''A'', ''A'', ''A''], True)
   \<and> observe 3 ''B'' [''A'', ''A''] = ([''A'', ''A'', ''B''], False)"
  using observe_stable_iff[of 3 "''A''" "[''B'', ''A'', ''A'']"]
        observe_stable_iff[of 3 "''B''" "[''A'', ''A'']"]
  by (simp add: observe_def push_label_def is_stable_def numeral_3_eq_3)

lemma process_frame_NoHands:
  "process_frame cfg now NoHands st = (st\<lparr>stability_buffer := []\<rparr>, None)"
  by (simp add: process_frame_def)

lemma process_frame_low:
  "confidence < confidence_threshold cfg \<Longrightarrow>
   process_frame cfg now (Prediction sign confidence) st = (st\<lparr>stability_buffer := []\<rparr>, None)"
  by (simp add: process_frame_def)

lemma process_frame_length:
  "length (stability_buffer st) \<le> stability_frames cfg \<Longrightarrow>
   length (stability_buffer (fst (process_frame cfg now fr st))) \<le> stability_frames cfg"
  by (auto simp: process_frame_def Let_def observe_def gate_def push_label_length
           split: frame.splits if_splits prod.splits)

lemma run_Cons_fst:
  "fst (run cfg ((now, fr) # rest) st) = fst (run cfg rest (fst (process_frame cfg now fr st)))"
  by (simp add: split_beta)

lemma run_length:
  "length (stability_buffer st) \<le> stability_frames cfg \<Longrightarrow>
   length (stability_buffer (fst (run cfg frames st))) \<le> stability_frames cfg"
proof (induction frames arbitrary: st)
  case Nil
  then show ?case by simp
next
  case (Cons a frames)
  obtain now fr where a: "a = (now, fr)" by (cases a)
  have "length (stability_buffer (fst (process_frame cfg now fr st))) \<le> stability_frames cfg"
    using Cons.prems by (rule process_frame_length)
  from Cons.IH[OF this] show ?case
    unfolding a run_Cons_fst .
qed

text \<open>
  Claim C7. Started with an empty buffer, the loop never holds more than
  \<open>stability_frames\<close> labels, whatever the frames; below capacity an append keeps
  every label, and at capacity it drops the oldest label and keeps the others in
  their order, the new label last.
\<close>

theorem window_bounded:
  assumes "stability_buffer st0 = []" and "st = fst (run cfg frames st0)"
  shows "length (stability_buffer st) \<le> stability_frames cfg
       \<and> (length (stability_buffer st) < stability_frames cfg \<longrightarrow>
            push_label (stability_frames cfg) sign (stability_buffer st) = stability_buffer st @ [sign])
       \<and> (\<forall>oldest rest. stability_buffer st = oldest # rest \<and> length (stability_buffer st) = stability_frames cfg \<longrightarrow>
            push_label (stability_frames cfg) sign (stability_buffer st) = rest @ [sign])"
proof -
  have "length (stability_buffer st0) \<le> stability_frames cfg" using assms(1) by simp
  from run_length[OF this] have "length (stability_buffer st) \<le> stability_frames cfg"
    using assms(2) by simp
  then show ?thesis by (auto simp: push_label_def Let_def)
qed

theorem window_bounded_witness:
  "stability_buffer (fst (run scenario_cfg scenario_start initial)) = [''Hello'', ''Hello'', ''Hello'']
   \<and> length (stability_buffer (fst (run scenario_cfg scenario_start initial))) \<le> stability_frames scenario_cfg
   \<and> push_label (stability_frames scenario_cfg) ''Bye'' (stability_buffer (fst (run scenario_cfg scenario_start initial)))
       = [''Hello'', ''Hello'', ''Bye'']"
proof -
  have e: "stability_buffer initial = []" by (simp add: initial_def)
  have b: "stability_buffer (fst (run scenario_cfg scenario_start initial)) = [''Hello'', ''Hello'', ''Hello'']"
    by (simp add: scenario_simps)
  from window_bounded[OF e refl, of scenario_cfg scenario_start "''Bye''"] b
  show ?thesis by (simp add: scenario_cfg_def)
qed

subsection \<open>Cooldown gate\<close>

text \<open>
  Claim C2. The gate answers \<open>True\<close> exactly when the label differs from the last
  announced sign, or equals it and more than the cooldown has passed since the last
  announcement; it then records the label and the current time. When it answers
  \<open>False\<close>, the last announced sign and the time of the last announcement are
  unchanged.
\<close>

theorem gate_contract:
  "(fst (gate cooldown sign now st) \<longleftrightarrow>
       Some sign \<noteq> last_announced_sign st
     \<or> (Some sign = last_announced_sign st \<and> now - last_announcement_time st > cooldown))
   \<and> (fst (gate cooldown sign now st) \<longrightarrow>
        last_announced_sign (snd (gate cooldown sign now st)) = Some sign
      \<and> last_announcement_time (snd (gate cooldown sign now st)) = now)
   \<and> (\<not> fst (gate cooldown sign now st) \<longrightarrow>
        last_announced_sign (snd (gate cooldown sign now st)) = last_announced_sign st
      \<and> last_announcement_time (snd (gate cooldown sign now st)) = last_announcement_time st)"
  by (auto simp: gate_def should_announce_def)

theorem gate_contract_witness:
  "gate 3 ''A'' 1 \<lparr>stability_buffer = [], last_announced_sign = Some ''A'', last_announcement_time = 0\<rparr>
     = (False, \<lparr>stability_buffer = [], last_announced_sign = Some ''A'', last_announcement_time = 0\<rparr>)
   \<and> gate 3 ''A'' 4 \<lparr>stability_buffer = [], last_announced_sign = Some ''A'', last_announcement_time = 0\<rparr>
     = (True, \<lparr>stability_buffer = [], last_announced_sign = Some ''A'', last_announcement_time = 4\<rparr>)
   \<and> gate 3 ''B'' (1/2) \<lparr>stability_buffer = [], last_announced_sign = Some ''A'', last_announcement_time = 0\<rparr>
     = (True, \<lparr>stability_buffer = [], last_announced_sign = Some ''B'', last_announcement_time = 1/2\<rparr>)
   \<and> fst (gate 3 ''A'' 0 initial)"
  using gate_contract[of 3 "''A''" 1 "\<lparr>stability_buffer = [], last_announced_sign = Some ''A'', last_announcement_time = 0\<rparr>"]
        gate_contract[of 3 "''A''" 4 "\<lparr>stability_buffer = [], last_announced_sign = Some ''A'', last_announcement_time = 0\<rparr>"]
        gate_contract[of 3 "''B''" "1/2" "\<lparr>stability_buffer = [], last_announced_sign = Some ''A'', last_announcement_time = 0\<rparr>"]
        gate_contract[of 3 "''A''" 0 initial]
  by (simp add: gate_def should_announce_def initial_def)

subsection \<open>The loop body\<close>

text \<open>
  With the exact test of \<^verbatim>\<open>deploy_pi.py\<close>, a frame without a hand, or with a top
  confidence strictly below the threshold, leaves the stability buffer empty,
  whatever it held, and announces nothing.
\<close>

lemma disqualified_frame_clears:
  assumes "fr = NoHands \<or> (\<exists>sign confidence. fr = Prediction sign confidence \<and> confidence < confidence_threshold cfg)"
  shows "stability_buffer (fst (process_frame cfg now fr st)) = []
       \<and> snd (process_frame cfg now fr st) = None"
  using assms by (auto simp: process_frame_NoHands process_frame_low)

lemma disqualified_frame_clears_example:
  "process_frame scenario_cfg 1 (Prediction ''Hello'' (65/100))
      \<lparr>stability_buffer = [''Hello'', ''Hello''], last_announced_sign = None, last_announcement_time = 0\<rparr>
     = (\<lparr>stability_buffer = [], last_announced_sign = None, last_announcement_time = 0\<rparr>, None)
   \<and> process_frame scenario_cfg 1 NoHands
      \<lparr>stability_buffer = [''Hello'', ''Hello''], last_announced_sign = None, last_announcement_time = 0\<rparr>
     = (\<lparr>stability_buffer = [], last_announced_sign = None, last_announcement_time = 0\<rparr>, None)"
  by (simp add: scenario_simps)

text \<open>With the float32 test, the frame is dropped when its confidence is below the
  rounded threshold.\<close>

lemma float32_frame_clears:
  assumes "confidence < float32 (confidence_threshold cfg)"
  shows "process_frame_float32 cfg now (Prediction sign confidence) st
           = (st\<lparr>stability_buffer := []\<rparr>, None)"
  using assms by (simp add: process_frame_float32_def process_frame_def)

lemma float32_half_binade:
  assumes "1 / 2 \<le> x" and "x < 1"
  shows "float32 x = of_int (round_half_even (x * 16777216)) / 16777216"
proof -
  have pos: "0 < x" using assms(1) by simp
  have a: "\<bar>x\<bar> = x" using pos by simp
  have "2 powr real_of_int (- 1) \<le> x \<and> x < 2 powr real_of_int (- 1 + 1)"
    using assms by (simp add: powr_minus field_simps)
  then have e: "\<lfloor>log 2 x\<rfloor> = - 1"
    using floor_log_eq_powr_iff[of x 2 "- 1"] pos by simp
  have u: "(2::real) powi (- 1 - 23) = 1 / 16777216" by (simp add: field_simps)
  show ?thesis
    unfolding float32_def a e Let_def using pos by (simp add: u)
qed

lemma float32_threshold:
  "float32 (7 / 10) = 11744051 / 16777216"
  "float32 (3152519739159347 / 4503599627370496) = 11744051 / 16777216"
  "float32 (11744051 / 16777216) = 11744051 / 16777216"
  by (simp_all add: float32_half_binade round_half_even_def)

text \<open>
  Claim C4 says that a frame whose top confidence is strictly below the configured
  threshold empties the stability buffer and announces nothing. The loop of
  \<^verbatim>\<open>inference.py\<close> does not do so under NumPy 2. The confidence \<open>11744051 / 2 ^ 24\<close> is a
  float32 and lies strictly below the threshold, the double nearest to 0.7; the
  threshold rounds to that same float32, so the test succeeds. From the empty buffer
  the label is kept in the buffer, and after two equal labels the sign is announced.
  The exact test of \<^verbatim>\<open>deploy_pi.py\<close> drops the same frame.
\<close>

theorem low_confidence_frame_kept:
  "just_below < confidence_threshold double_cfg
   \<and> float32 just_below = just_below
   \<and> process_frame_float32 double_cfg 1 (Prediction ''Hello'' just_below) initial
       = (\<lparr>stability_buffer = [''Hello''], last_announced_sign = None,
            last_announcement_time = 0\<rparr>, None)
   \<and> process_frame_float32 double_cfg 1 (Prediction ''Hello'' just_below)
         \<lparr>stability_buffer = [''Hello'', ''Hello''], last_announced_sign = None,
          last_announcement_time = 0\<rparr>
       = (\<lparr>stability_buffer = [], last_announced_sign = Some ''Hello'',
            last_announcement_time = 1\<rparr>, Some (''Hello'', just_below))
   \<and> process_frame double_cfg 1 (Prediction ''Hello'' just_below)
         \<lparr>stability_buffer = [''Hello'', ''Hello''], last_announced_sign = None,
          last_announcement_time = 0\<rparr>
       = (\<lparr>stability_buffer = [], last_announced_sign = None,
            last_announcement_time = 0\<rparr>, None)"
  by (simp add: process_frame_float32_def double_cfg_def just_below_def float32_threshold
        initial_def process_frame_def observe_def push_label_def is_stable_def gate_def
        should_announce_def Let_def)

theorem low_confidence_frame_kept_witness:
  "snd (process_frame_float32 double_cfg 1 (Prediction ''Hello'' just_below)
         \<lparr>stability_buffer = [''Hello'', ''Hello''], last_announced_sign = None,
          last_announcement_time = 0\<rparr>)
     = Some (''Hello'', just_below)"
  using low_confidence_frame_kept by simp

text \<open>
  Claim C6. A frame that announces a sign leaves the stability buffer empty: each
  announcement starts a fresh window.
\<close>

theorem fired_clears:
  assumes "snd (process_frame cfg now fr st) = Some a"
  shows "stability_buffer (fst (process_frame cfg now fr st)) = []"
  using assms
  by (auto simp: process_frame_def Let_def split: frame.splits if_splits prod.splits)

theorem fired_clears_witness:
  "snd (process_frame scenario_cfg 1 (Prediction ''Hello'' (9/10))
      \<lparr>stability_buffer = [''Hello'', ''Hello''], last_announced_sign = None, last_announcement_time = 0\<rparr>)
     = Some (''Hello'', 9/10)
   \<and> stability_buffer (fst (process_frame scenario_cfg 1 (Prediction ''Hello'' (9/10))
      \<lparr>stability_buffer = [''Hello'', ''Hello''], last_announced_sign = None, last_announcement_time = 0\<rparr>))
     = []"
proof -
  have h: "snd (process_frame scenario_cfg 1 (Prediction ''Hello'' (9/10))
      \<lparr>stability_buffer = [''Hello'', ''Hello''], last_announced_sign = None, last_announcement_time = 0\<rparr>)
     = Some (''Hello'', 9/10)"
    by (simp add: scenario_simps)
  from h fired_clears[OF h] show ?thesis by simp
qed

text \<open>
  Claim C5. In the scenario, the third frame (t = 0.2) announces ``Hello'' and leaves
  the buffer empty; the buffer is stable again at t = 0.5 and nothing is announced,
  the two seconds of cooldown since t = 0.2 not being over; the run that completes at
  t = 2.3 announces ``Hello'' a second time. There is no other announcement.
\<close>

theorem end_to_end_scenario:
  "run scenario_cfg (take 3 scenario_start) initial =
     (\<lparr>stability_buffer = [], last_announced_sign = Some ''Hello'', last_announcement_time = 2/10\<rparr>,
      [(2/10, ''Hello'', 9/10)])
   \<and> snd (run scenario_cfg scenario_start initial) = [(2/10, ''Hello'', 9/10)]
   \<and> snd (run scenario_cfg scenario_held initial) = [(2/10, ''Hello'', 9/10), (23/10, ''Hello'', 9/10)]
   \<and> snd (run scenario_cfg scenario_fresh initial) = [(2/10, ''Hello'', 9/10), (23/10, ''Hello'', 9/10)]"
  by (simp add: scenario_simps)

theorem end_to_end_scenario_witness:
  "map fst (snd (run scenario_cfg scenario_fresh initial)) = [2/10, 23/10]"
  using end_to_end_scenario by simp

section \<open>Properties of the landmark normalization\<close>

subsection \<open>The inner loop\<close>

lemma length_shifted: "length (shifted s e wx wy wz xs) = length xs"
  by (simp add: shifted_def)

lemma nth_shifted:
  "j < length xs \<Longrightarrow>
   shifted s e wx wy wz xs ! j =
     (if s \<le> j \<and> j < e then xs ! j - wrist_coord (j - s) wx wy wz else xs ! j)"
  by (simp add: shifted_def)

lemma shifted_empty: "shifted s s wx wy wz xs = xs"
  by (rule nth_equalityI) (simp_all add: length_shifted nth_shifted)

lemma wrist_coord_shift:
  assumes "s + 3 \<le> j"
  shows "wrist_coord (j - (s + 3)) wx wy wz = wrist_coord (j - s) wx wy wz"
proof -
  obtain k where j: "j = (s + 3) + k"
    using assms le_Suc_ex by blast
  have a: "j - (s + 3) = k" unfolding j by simp
  have b: "j - s = k + 3" unfolding j by simp
  have c: "(k + 3) mod 3 = k mod 3" by simp
  show ?thesis unfolding a b wrist_coord_def c ..
qed

lemma wrist_coord_0: "wrist_coord 0 wx wy wz = wx"
  by (simp add: wrist_coord_def)

lemma wrist_coord_1: "wrist_coord (Suc 0) wx wy wz = wy"
  by (simp add: wrist_coord_def)

lemma wrist_coord_2: "wrist_coord 2 wx wy wz = wz"
  by (simp add: wrist_coord_def)

lemma triple_update_nth:
  "s + 3 \<le> length xs \<Longrightarrow> j < length xs \<Longrightarrow>
   xs[s := a, s + 1 := b, s + 2 := c] ! j =
     (if j = s then a else if j = s + 1 then b else if j = s + 2 then c else xs ! j)"
  by (simp add: nth_list_update)

lemma shifted_step:
  assumes len: "s + 3 \<le> length xs" and e: "s + 3 \<le> e"
  shows "shifted (s + 3) e wx wy wz (xs[s := xs ! s - wx, s + 1 := xs ! (s + 1) - wy, s + 2 := xs ! (s + 2) - wz])
       = shifted s e wx wy wz xs"
    (is "shifted _ _ _ _ _ ?ys = _")
proof (rule nth_equalityI)
  show "length (shifted (s + 3) e wx wy wz ?ys) = length (shifted s e wx wy wz xs)"
    by (simp add: length_shifted)
next
  fix j
  assume "j < length (shifted (s + 3) e wx wy wz ?ys)"
  then have j: "j < length xs" by (simp add: length_shifted)
  then have j': "j < length ?ys" by simp
  have ys: "?ys ! j = (if j = s then xs ! s - wx else if j = s + 1 then xs ! (s + 1) - wy
                       else if j = s + 2 then xs ! (s + 2) - wz else xs ! j)"
    using len j by (rule triple_update_nth)
  have L: "shifted (s + 3) e wx wy wz ?ys ! j =
             (if s + 3 \<le> j \<and> j < e then ?ys ! j - wrist_coord (j - (s + 3)) wx wy wz else ?ys ! j)"
    using j' by (rule nth_shifted)
  have R: "shifted s e wx wy wz xs ! j =
             (if s \<le> j \<and> j < e then xs ! j - wrist_coord (j - s) wx wy wz else xs ! j)"
    using j by (rule nth_shifted)
  consider "j < s" | "j = s" | "j = s + 1" | "j = s + 2" | "s + 3 \<le> j" by linarith
  then show "shifted (s + 3) e wx wy wz ?ys ! j = shifted s e wx wy wz xs ! j"
  proof cases
    case 1
    then show ?thesis unfolding L R ys by simp
  next
    case 2
    then show ?thesis unfolding L R ys using e by (simp add: wrist_coord_0)
  next
    case 3
    then show ?thesis unfolding L R ys using e by (simp add: wrist_coord_1)
  next
    case 4
    then show ?thesis unfolding L R ys using e by (simp add: wrist_coord_2)
  next
    case 5
    then show ?thesis unfolding L R ys by (simp add: wrist_coord_shift)
  qed
qed

lemma triples_Suc:
  "map (\<lambda>k. s + 3 * k) [0..<Suc m] = s # map (\<lambda>k. (s + 3) + 3 * k) [0..<m]"
proof -
  have "[0..<Suc m] = 0 # map Suc [0..<m]"
    by (simp add: upt_rec[of 0 "Suc m"] map_Suc_upt del: upt_Suc)
  then show ?thesis by (simp add: comp_def add.assoc del: upt_Suc)
qed

lemma subtract_wrist_triples:
  "s + 3 * m \<le> length xs \<Longrightarrow>
   subtract_wrist (map (\<lambda>k. s + 3 * k) [0..<m]) wx wy wz xs = Inr (shifted s (s + 3 * m) wx wy wz xs)"
proof (induction m arbitrary: s xs)
  case 0
  then show ?case by (simp add: shifted_empty)
next
  case (Suc m)
  let ?ys = "xs[s := xs ! s - wx, s + 1 := xs ! (s + 1) - wy, s + 2 := xs ! (s + 2) - wz]"
  have len: "s + 3 \<le> length xs" using Suc.prems by simp
  have "(s + 3) + 3 * m \<le> length ?ys" using Suc.prems by simp
  from Suc.IH[OF this]
  have IH: "subtract_wrist (map (\<lambda>k. (s + 3) + 3 * k) [0..<m]) wx wy wz ?ys
          = Inr (shifted (s + 3) ((s + 3) + 3 * m) wx wy wz ?ys)" .
  have step: "subtract_wrist (s # map (\<lambda>k. (s + 3) + 3 * k) [0..<m]) wx wy wz xs
          = subtract_wrist (map (\<lambda>k. (s + 3) + 3 * k) [0..<m]) wx wy wz ?ys"
    using len by (simp add: isub_def)
  have e: "(s + 3) + 3 * m = s + 3 * Suc m" by simp
  have "shifted (s + 3) (s + 3 * Suc m) wx wy wz ?ys = shifted s (s + 3 * Suc m) wx wy wz xs"
    using len by (rule shifted_step) simp
  then show ?case unfolding triples_Suc step IH e by simp
qed

subsection \<open>One hand\<close>

lemma length_hand_shift: "length (hand_shift k v) = length v"
  by (simp add: hand_shift_def length_shifted)

lemma wrist_coord_simps:
  "wrist_coord (3 * i) wx wy wz = wx"
  "wrist_coord (Suc (3 * i)) wx wy wz = wy"
  "wrist_coord (Suc (Suc (3 * i))) wx wy wz = wz"
  by (simp_all add: wrist_coord_def mod_Suc)

lemma nth_hand_shift_in:
  assumes "k * 63 + 63 \<le> length v" and "i < 21" and "c < 3"
  shows "hand_shift k v ! (k * 63 + 3 * i + c) = v ! (k * 63 + 3 * i + c) - v ! (k * 63 + c)"
proof -
  have j: "k * 63 + 3 * i + c < length v" using assms by linarith
  have r: "k * 63 \<le> k * 63 + 3 * i + c \<and> k * 63 + 3 * i + c < k * 63 + 63"
    using assms by linarith
  have d: "k * 63 + 3 * i + c - k * 63 = 3 * i + c" by simp
  have "hand_shift k v ! (k * 63 + 3 * i + c) =
          v ! (k * 63 + 3 * i + c) -
          wrist_coord (3 * i + c) (v ! (k * 63)) (v ! (k * 63 + 1)) (v ! (k * 63 + 2))"
    unfolding hand_shift_def nth_shifted[OF j] d using r by simp
  also have "wrist_coord (3 * i + c) (v ! (k * 63)) (v ! (k * 63 + 1)) (v ! (k * 63 + 2)) = v ! (k * 63 + c)"
  proof -
    consider "c = 0" | "c = 1" | "c = 2" using assms(3) by linarith
    then show ?thesis
      by cases (simp_all add: wrist_coord_simps)
  qed
  finally show ?thesis .
qed

lemma nth_hand_shift_out:
  assumes "j < length v" and "j < k * 63 \<or> k * 63 + 63 \<le> j"
  shows "hand_shift k v ! j = v ! j"
  unfolding hand_shift_def nth_shifted[OF assms(1)] using assms(2) by auto

lemma range3_hand: "range3 (k * 63) (k * 63 + 63) = map (\<lambda>i. k * 63 + 3 * i) [0..<21]"
  by (simp add: range3_def)

lemma np_any_slice:
  "np_any (slice v s e) \<longleftrightarrow> (\<exists>j. s + j < e \<and> s + j < length v \<and> v ! (s + j) \<noteq> 0)"
proof -
  have "np_any (slice v s e) \<longleftrightarrow> (\<exists>j < length (take (e - s) (drop s v)). take (e - s) (drop s v) ! j \<noteq> 0)"
    unfolding np_any_def slice_def list_ex_length ..
  also have "\<dots> \<longleftrightarrow> (\<exists>j. s + j < e \<and> s + j < length v \<and> v ! (s + j) \<noteq> 0)"
    by (auto simp: less_diff_conv add.commute)
  finally show ?thesis .
qed

lemma present_iff:
  "present v k \<longleftrightarrow> (\<exists>j<63. k * 63 + j < length v \<and> v ! (k * 63 + j) \<noteq> 0)"
  unfolding present_def np_any_slice by auto

lemma normalize_hand_full:
  assumes "k * 63 + 63 \<le> length v"
  shows "normalize_hand k v = Inr (if present v k then hand_shift k v else v)"
proof (cases "present v k")
  case False
  then show ?thesis by (simp add: normalize_hand_def present_def Let_def)
next
  case True
  have g: "getitem v (k * 63) = Inr (v ! (k * 63))"
          "getitem v (k * 63 + 1) = Inr (v ! (k * 63 + 1))"
          "getitem v (k * 63 + 2) = Inr (v ! (k * 63 + 2))"
    using assms by (simp_all add: getitem_def)
  have "k * 63 + 3 * 21 \<le> length v" using assms by simp
  from subtract_wrist_triples[OF this]
  have s: "subtract_wrist (map (\<lambda>i. k * 63 + 3 * i) [0..<21])
             (v ! (k * 63)) (v ! (k * 63 + 1)) (v ! (k * 63 + 2)) v = Inr (hand_shift k v)"
    by (simp add: hand_shift_def)
  from True have p: "np_any (slice v (k * 63) (k * 63 + 63))" by (simp add: present_def)
  show ?thesis
    unfolding normalize_hand_def Let_def range3_hand g sum.case s using p True by simp
qed

subsection \<open>Both hands of a vector of 126 elements\<close>

lemma index_decomp:
  assumes "(j::nat) < 126"
  shows "\<exists>k i c. k < 2 \<and> i < 21 \<and> c < 3 \<and> j = k * 63 + 3 * i + c"
proof -
  let ?k = "j div 63" and ?r = "j mod 63"
  have k: "?k < 2" using assms by (simp add: div_less_iff_less_mult)
  have r: "?r < 63" by simp
  have i: "?r div 3 < 21" using r by (simp add: div_less_iff_less_mult)
  have c: "?r mod 3 < 3" by simp
  have "j = ?k * 63 + ?r" by simp
  also have "?r = 3 * (?r div 3) + ?r mod 3" by simp
  finally have "j = ?k * 63 + 3 * (?r div 3) + ?r mod 3" by (simp add: add.assoc)
  with k i c show ?thesis by blast
qed

lemma present_hand_shift_other:
  assumes "length v = 126"
  shows "present (hand_shift 0 v) 1 = present v 1"
proof -
  have "\<And>j. j < 63 \<Longrightarrow> hand_shift 0 v ! (1 * 63 + j) = v ! (1 * 63 + j)"
    using assms by (intro nth_hand_shift_out) simp_all
  then show ?thesis
    unfolding present_iff length_hand_shift by auto
qed

lemma length_both_hands: "length (both_hands v) = length v"
  by (simp add: both_hands_def Let_def length_hand_shift)

lemma normalize_hands_126:
  assumes "length v = 126"
  shows "normalize_hands [0, 1] v = Inr (both_hands v)"
proof -
  let ?v1 = "if present v 0 then hand_shift 0 v else v"
  have l1: "length ?v1 = 126" using assms by (simp add: length_hand_shift)
  have h0: "normalize_hand 0 v = Inr ?v1"
    using assms by (intro normalize_hand_full) simp
  have h1: "normalize_hand 1 ?v1 = Inr (if present ?v1 1 then hand_shift 1 ?v1 else ?v1)"
    using l1 by (intro normalize_hand_full) simp
  have p: "present ?v1 1 = present v 1"
    using present_hand_shift_other[OF assms] by simp
  show ?thesis
    unfolding both_hands_def Let_def normalize_hands.simps h0 sum.case h1 p ..
qed

lemma nth_both_hands_0:
  assumes len: "length v = 126" and i: "i < 21" and c: "c < 3"
  shows "both_hands v ! (3 * i + c) =
           (if present v 0 then v ! (3 * i + c) - v ! c else v ! (3 * i + c))"
proof -
  have a: "hand_shift 0 v ! (3 * i + c) = v ! (3 * i + c) - v ! c"
    using nth_hand_shift_in[of 0 v i c] len i c by simp
  have j: "3 * i + c < 63" using i c by linarith
  have b: "\<And>w. length w = 126 \<Longrightarrow> hand_shift 1 w ! (3 * i + c) = w ! (3 * i + c)"
    using j by (intro nth_hand_shift_out) simp_all
  have b1: "hand_shift 1 (hand_shift 0 v) ! (3 * i + c) = hand_shift 0 v ! (3 * i + c)"
    using len by (intro b) (simp add: length_hand_shift)
  have b2: "hand_shift 1 v ! (3 * i + c) = v ! (3 * i + c)"
    using len by (rule b)
  show ?thesis
    unfolding both_hands_def Let_def
    by (cases "present v 0"; cases "present v 1") (simp_all only: if_True if_False a b1 b2)
qed

lemma nth_both_hands_1:
  assumes len: "length v = 126" and i: "i < 21" and c: "c < 3"
  shows "both_hands v ! (63 + 3 * i + c) =
           (if present v 1 then v ! (63 + 3 * i + c) - v ! (63 + c) else v ! (63 + 3 * i + c))"
proof -
  have j: "63 \<le> 63 + 3 * i + c \<and> 63 + 3 * i + c < 126" using i c by linarith
  have jc: "63 \<le> 63 + c \<and> 63 + c < 126" using c by linarith
  have o: "\<And>m. 63 \<le> m \<Longrightarrow> m < 126 \<Longrightarrow> hand_shift 0 v ! m = v ! m"
    using len by (intro nth_hand_shift_out) simp_all
  have o1: "hand_shift 0 v ! (63 + 3 * i + c) = v ! (63 + 3 * i + c)"
    using j by (intro o) simp_all
  have o2: "hand_shift 0 v ! (63 + c) = v ! (63 + c)"
    using jc by (intro o) simp_all
  have a: "\<And>w. length w = 126 \<Longrightarrow>
             hand_shift 1 w ! (63 + 3 * i + c) = w ! (63 + 3 * i + c) - w ! (63 + c)"
    using nth_hand_shift_in[of 1 _ i c] i c by simp
  have a1: "hand_shift 1 (hand_shift 0 v) ! (63 + 3 * i + c)
              = hand_shift 0 v ! (63 + 3 * i + c) - hand_shift 0 v ! (63 + c)"
    using len by (intro a) (simp add: length_hand_shift)
  have a2: "hand_shift 1 v ! (63 + 3 * i + c) = v ! (63 + 3 * i + c) - v ! (63 + c)"
    using len by (rule a)
  show ?thesis
    unfolding both_hands_def Let_def
    by (cases "present v 0"; cases "present v 1") (simp_all only: if_True if_False a1 a2 o1 o2)
qed

lemma nth_both_hands:
  assumes len: "length v = 126" and k: "k < 2" and i: "i < 21" and c: "c < 3"
  shows "both_hands v ! (k * 63 + 3 * i + c) =
           (if present v k then v ! (k * 63 + 3 * i + c) - v ! (k * 63 + c)
            else v ! (k * 63 + 3 * i + c))"
proof -
  consider "k = 0" | "k = 1" using k by linarith
  then show ?thesis
  proof cases
    case 1
    show ?thesis unfolding 1 using nth_both_hands_0[OF len i c] by simp
  next
    case 2
    show ?thesis unfolding 2 using nth_both_hands_1[OF len i c] by simp
  qed
qed

lemma index_decomp_hand:
  assumes "(j::nat) < 63"
  shows "\<exists>i c. i < 21 \<and> c < 3 \<and> j = 3 * i + c"
proof -
  have i: "j div 3 < 21" using assms by (simp add: div_less_iff_less_mult)
  have c: "j mod 3 < 3" by simp
  have "j = 3 * (j div 3) + j mod 3" by simp
  with i c show ?thesis by blast
qed

lemma present_triples:
  assumes "length v = 126" and "k < 2"
  shows "present v k \<longleftrightarrow> (\<exists>i<21. \<exists>c<3. v ! (k * 63 + 3 * i + c) \<noteq> 0)"
proof
  assume "present v k"
  then obtain j where j: "j < 63" "v ! (k * 63 + j) \<noteq> 0"
    unfolding present_iff by blast
  from index_decomp_hand[OF j(1)] obtain i c where "i < 21" "c < 3" "j = 3 * i + c" by blast
  with j(2) show "\<exists>i<21. \<exists>c<3. v ! (k * 63 + 3 * i + c) \<noteq> 0"
    by (auto simp: add.assoc)
next
  assume "\<exists>i<21. \<exists>c<3. v ! (k * 63 + 3 * i + c) \<noteq> 0"
  then obtain i c where ic: "i < 21" "c < 3" "v ! (k * 63 + 3 * i + c) \<noteq> 0" by blast
  have a: "3 * i + c < 63" using ic by linarith
  have b: "k * 63 + (3 * i + c) < length v" using assms ic by linarith
  show "present v k"
    unfolding present_iff using a b ic(3) by (auto simp: add.assoc)
qed

lemma both_hands_eqI:
  assumes "length v = 126" and "length w = 126"
    and "\<And>k i c. k < 2 \<Longrightarrow> i < 21 \<Longrightarrow> c < 3 \<Longrightarrow>
           v ! (k * 63 + 3 * i + c) = w ! (k * 63 + 3 * i + c)"
  shows "v = w"
proof (rule nth_equalityI)
  show "length v = length w" using assms by simp
next
  fix j assume "j < length v"
  then have "j < 126" using assms by simp
  from index_decomp[OF this] obtain k i c
    where "k < 2" "i < 21" "c < 3" "j = k * 63 + 3 * i + c" by blast
  then show "v ! j = w ! j" using assms(3) by simp
qed

lemma nth_both_hands_wrist:
  assumes "length v = 126" and "k < 2" and "c < 3"
  shows "both_hands v ! (k * 63 + c) = (if present v k then 0 else v ! (k * 63 + c))"
  using nth_both_hands[OF assms(1,2), of 0 c] assms(3) by simp

lemma present_both_hands:
  assumes len: "length v = 126" and k: "k < 2"
  shows "present (both_hands v) k \<longleftrightarrow>
           (\<exists>i<21. \<exists>c<3. v ! (k * 63 + 3 * i + c) \<noteq> v ! (k * 63 + c))"
proof (cases "present v k")
  case True
  have "\<And>i c. i < 21 \<Longrightarrow> c < 3 \<Longrightarrow>
          both_hands v ! (k * 63 + 3 * i + c) = v ! (k * 63 + 3 * i + c) - v ! (k * 63 + c)"
    using nth_both_hands[OF len k] True by simp
  then have "(\<exists>i<21. \<exists>c<3. both_hands v ! (k * 63 + 3 * i + c) \<noteq> 0) \<longleftrightarrow>
             (\<exists>i<21. \<exists>c<3. v ! (k * 63 + 3 * i + c) - v ! (k * 63 + c) \<noteq> 0)"
    by (simp cong: conj_cong)
  then show ?thesis
    unfolding present_triples[OF length_both_hands[of v, unfolded len] k] by simp
next
  case False
  then have z: "\<And>i c. i < 21 \<Longrightarrow> c < 3 \<Longrightarrow> v ! (k * 63 + 3 * i + c) = 0"
    unfolding present_triples[OF len k] by blast
  have z0: "\<And>c. c < 3 \<Longrightarrow> v ! (k * 63 + c) = 0"
    using z[of 0] by simp
  have "\<And>i c. i < 21 \<Longrightarrow> c < 3 \<Longrightarrow> both_hands v ! (k * 63 + 3 * i + c) = 0"
    using nth_both_hands[OF len k] False z by simp
  then show ?thesis
    unfolding present_triples[OF length_both_hands[of v, unfolded len] k] using z z0 by auto
qed

lemma both_hands_idem:
  assumes len: "length v = 126"
  shows "both_hands (both_hands v) = both_hands v"
proof (rule both_hands_eqI)
  show l: "length (both_hands (both_hands v)) = 126" "length (both_hands v) = 126"
    using len by (simp_all add: length_both_hands)
next
  fix k i c :: nat
  assume k: "k < 2" and i: "i < 21" and c: "c < 3"
  let ?w = "both_hands v"
  have lw: "length ?w = 126" using len by (simp add: length_both_hands)
  have n: "both_hands ?w ! (k * 63 + 3 * i + c) =
             (if present ?w k then ?w ! (k * 63 + 3 * i + c) - ?w ! (k * 63 + c)
              else ?w ! (k * 63 + 3 * i + c))"
    using lw k i c by (rule nth_both_hands)
  show "both_hands ?w ! (k * 63 + 3 * i + c) = ?w ! (k * 63 + 3 * i + c)"
  proof (cases "present ?w k")
    case False
    then show ?thesis using n by simp
  next
    case True
    have "present v k"
    proof (rule ccontr)
      assume np: "\<not> present v k"
      then have "\<And>i c. i < 21 \<Longrightarrow> c < 3 \<Longrightarrow> v ! (k * 63 + 3 * i + c) = 0"
        unfolding present_triples[OF len k] by blast
      then have "\<And>i c. i < 21 \<Longrightarrow> c < 3 \<Longrightarrow> ?w ! (k * 63 + 3 * i + c) = 0"
        using nth_both_hands[OF len k] np by simp
      then have "\<not> present ?w k"
        unfolding present_triples[OF lw k] by blast
      with True show False by simp
    qed
    then have "?w ! (k * 63 + c) = 0"
      using nth_both_hands_wrist[OF len k c] by simp
    then show ?thesis using n True by simp
  qed
qed

lemma normalize_landmarks_126:
  assumes "length (h ! a) = 126"
  shows "normalize_landmarks h a = Inr (h @ [both_hands (h ! a)], length h)"
proof -
  have e: "(h @ [h ! a]) ! length h = h ! a" by simp
  show ?thesis
    unfolding normalize_landmarks_def alloc_def Let_def prod.case e
      normalize_hands_126[OF assms] sum.case
    by simp
qed

lemma one_landmark_facts:
  "length one_landmark = 126" "present one_landmark 0" "\<not> present one_landmark 1"
  "one_landmark ! 0 = 1" "one_landmark ! 3 = 0" "one_landmark ! 63 = 0"
proof -
  show "length one_landmark = 126" by (simp add: one_landmark_def)
  show "present one_landmark 0"
    unfolding present_iff by (rule exI[of _ 0]) (simp add: one_landmark_def)
  have "\<And>j. j < 63 \<Longrightarrow> one_landmark ! (1 * 63 + j) = 0"
    by (simp add: one_landmark_def nth_append)
  then show "\<not> present one_landmark 1" unfolding present_iff by simp
  show "one_landmark ! 0 = 1" "one_landmark ! 3 = 0" "one_landmark ! 63 = 0"
    by (simp_all add: one_landmark_def nth_append)
qed

text \<open>
  Claim C3. For an input array of 126 elements, \<^verbatim>\<open>normalize_landmarks\<close> returns a new
  array of 126 elements and leaves every array of the store, the input among them,
  as it was. In the slice of a hand with a non-zero element, the wrist's \<open>x\<close>, \<open>y\<close>
  and \<open>z\<close> are subtracted from the \<open>x\<close>, \<open>y\<close> and \<open>z\<close> of each of the 21 landmarks,
  and the wrist itself is (0, 0, 0) afterwards; a slice of zeros is returned as it is.
\<close>

theorem normalize_landmarks_wrist_relative:
  assumes "a < length h" and "length (h ! a) = 126"
  shows "\<exists>h' a'. normalize_landmarks h a = Inr (h', a')
           \<and> a' \<noteq> a \<and> take (length h) h' = h \<and> h' ! a = h ! a
           \<and> length (h' ! a') = 126
           \<and> (\<forall>k<2. if present (h ! a) k
                    then (\<forall>i<21. \<forall>c<3. h' ! a' ! (k * 63 + 3 * i + c)
                                         = h ! a ! (k * 63 + 3 * i + c) - h ! a ! (k * 63 + c))
                       \<and> (\<forall>c<3. h' ! a' ! (k * 63 + c) = 0)
                    else (\<forall>j<63. h' ! a' ! (k * 63 + j) = h ! a ! (k * 63 + j)))"
proof -
  let ?v = "h ! a" and ?w = "both_hands (h ! a)"
  let ?h' = "h @ [?w]"
  have r: "normalize_landmarks h a = Inr (?h', length h)"
    using assms(2) by (rule normalize_landmarks_126)
  have 1: "length h \<noteq> a" using assms(1) by simp
  have 2: "take (length h) ?h' = h" by simp
  have 3: "?h' ! a = h ! a" using assms(1) by (simp add: nth_append)
  have w: "?h' ! length h = ?w" by simp
  have 4: "length ?w = 126" using assms(2) by (simp add: length_both_hands)
  have 5: "if present ?v k
           then (\<forall>i<21. \<forall>c<3. ?w ! (k * 63 + 3 * i + c) = ?v ! (k * 63 + 3 * i + c) - ?v ! (k * 63 + c))
              \<and> (\<forall>c<3. ?w ! (k * 63 + c) = 0)
           else (\<forall>j<63. ?w ! (k * 63 + j) = ?v ! (k * 63 + j))" if k: "k < 2" for k
  proof (cases "present ?v k")
    case True
    have "\<forall>i<21. \<forall>c<3. ?w ! (k * 63 + 3 * i + c) = ?v ! (k * 63 + 3 * i + c) - ?v ! (k * 63 + c)"
      using nth_both_hands[OF assms(2) k] True by simp
    moreover have "\<forall>c<3. ?w ! (k * 63 + c) = 0"
      using nth_both_hands_wrist[OF assms(2) k] True by simp
    ultimately show ?thesis using True by simp
  next
    case False
    have "?w ! (k * 63 + j) = ?v ! (k * 63 + j)" if "j < 63" for j
    proof -
      from index_decomp_hand[OF that] obtain i c where ic: "i < 21" "c < 3" "j = 3 * i + c"
        by blast
      show ?thesis
        using nth_both_hands[OF assms(2) k ic(1,2)] False unfolding ic(3) by (simp add: add.assoc)
    qed
    then show ?thesis using False by simp
  qed
  show ?thesis
    apply (rule exI[of _ ?h'])
    apply (rule exI[of _ "length h"])
    unfolding w
    using r 1 2 3 4 5 by blast
qed

theorem normalize_landmarks_wrist_relative_witness:
  "\<exists>h' a'. normalize_landmarks [one_landmark] 0 = Inr (h', a')
      \<and> h' ! 0 = one_landmark
      \<and> h' ! a' ! 0 = 0 \<and> h' ! a' ! 3 = - 1 \<and> h' ! a' ! 63 = 0"
proof -
  have a: "0 < length [one_landmark]" by simp
  have l: "length ([one_landmark] ! 0) = 126" by (simp add: one_landmark_facts)
  from normalize_landmarks_wrist_relative[OF a l]
  obtain h' a' where r: "normalize_landmarks [one_landmark] 0 = Inr (h', a')"
    and i: "h' ! 0 = [one_landmark] ! 0"
    and k: "\<forall>k<2. if present ([one_landmark] ! 0) k
                  then (\<forall>i<21. \<forall>c<3. h' ! a' ! (k * 63 + 3 * i + c)
                                 = [one_landmark] ! 0 ! (k * 63 + 3 * i + c) - [one_landmark] ! 0 ! (k * 63 + c))
                     \<and> (\<forall>c<3. h' ! a' ! (k * 63 + c) = 0)
                  else (\<forall>j<63. h' ! a' ! (k * 63 + j) = [one_landmark] ! 0 ! (k * 63 + j))"
    by blast
  have k0: "(\<forall>i<21. \<forall>c<3. h' ! a' ! (3 * i + c) = one_landmark ! (3 * i + c) - one_landmark ! c)
                 \<and> (\<forall>c<3. h' ! a' ! c = 0)"
    using k[rule_format, of 0] one_landmark_facts(2) by simp
  have k1: "\<forall>j<63. h' ! a' ! (63 + j) = one_landmark ! (63 + j)"
    using k[rule_format, of 1] one_landmark_facts(3) by simp
  have "h' ! a' ! 0 = 0" using k0 by simp
  moreover have "h' ! a' ! (3 * 1 + 0) = one_landmark ! (3 * 1 + 0) - one_landmark ! 0"
    using conjunct1[OF k0, rule_format, of 1 0] by simp
  then have "h' ! a' ! 3 = - 1" by (simp add: one_landmark_facts)
  moreover have "h' ! a' ! (63 + 0) = one_landmark ! (63 + 0)" using k1[rule_format, of 0] by simp
  then have "h' ! a' ! 63 = 0" by (simp add: one_landmark_facts)
  ultimately show ?thesis using r i by auto
qed

lemma nth_coincident: "j < 126 \<Longrightarrow> coincident ! j = (if j < 63 then 1 else 0)"
  by (simp add: coincident_def nth_append)

lemma coincident_facts:
  "length coincident = 126" "present coincident 0"
proof -
  show "length coincident = 126" by (simp add: coincident_def)
  show "present coincident 0"
    unfolding present_iff by (rule exI[of _ 0]) (simp add: coincident_def nth_append)
qed

lemma both_hands_coincident: "both_hands coincident = replicate 126 0"
proof (rule both_hands_eqI)
  show "length (both_hands coincident) = 126"
    by (simp add: length_both_hands coincident_facts)
  show "length (replicate 126 (0::real)) = 126" by simp
next
  fix k i c :: nat
  assume k: "k < 2" and i: "i < 21" and c: "c < 3"
  have j: "k * 63 + 3 * i + c < 126" using k i c by linarith
  have jc: "k * 63 + c < 126" using k c by linarith
  have s: "k * 63 + 3 * i + c < 63 \<longleftrightarrow> k * 63 + c < 63"
    using k i c by (cases "k = 0") simp_all
  have "coincident ! (k * 63 + 3 * i + c) = coincident ! (k * 63 + c)"
    unfolding nth_coincident[OF j] nth_coincident[OF jc] s ..
  moreover have "\<not> present coincident k \<Longrightarrow> coincident ! (k * 63 + 3 * i + c) = 0"
    unfolding present_triples[OF coincident_facts(1) k] using i c by blast
  ultimately have "both_hands coincident ! (k * 63 + 3 * i + c) = 0"
    using nth_both_hands[OF coincident_facts(1) k i c] by simp
  then show "both_hands coincident ! (k * 63 + 3 * i + c) = replicate 126 0 ! (k * 63 + 3 * i + c)"
    using j by simp
qed

text \<open>
  Claim C8 says that the slice of a present hand is never all zero after
  normalization. It fails for a hand whose landmarks all coincide with its wrist:
  the subtraction leaves only zeros.
\<close>

theorem present_hand_all_zero_counterexample:
  "present coincident 0
   \<and> normalize_landmarks [coincident] 0 = Inr ([coincident, replicate 126 0], 1)
   \<and> \<not> present (replicate 126 0) 0"
proof -
  have "[coincident] ! 0 = coincident" by simp
  then have "length ([coincident] ! 0) = 126" by (simp add: coincident_facts)
  from normalize_landmarks_126[OF this]
  have "normalize_landmarks [coincident] 0 = Inr ([coincident, replicate 126 0], 1)"
    by (simp add: both_hands_coincident)
  moreover have "\<not> present (replicate 126 0) 0"
    unfolding present_iff by simp
  ultimately show ?thesis using coincident_facts(2) by simp
qed

text \<open>
  Claim C8, amended. For an input array of 126 elements, the slice of a hand holds a
  non-zero element after normalization exactly when some landmark of that hand
  differs from the hand's wrist in some coordinate; a hand that was absent stays
  absent.
\<close>

theorem present_after_normalization:
  assumes "a < length h" and "length (h ! a) = 126"
  shows "\<exists>h' a'. normalize_landmarks h a = Inr (h', a')
           \<and> (\<forall>k<2. (present (h' ! a') k \<longleftrightarrow>
                       (\<exists>i<21. \<exists>c<3. h ! a ! (k * 63 + 3 * i + c) \<noteq> h ! a ! (k * 63 + c)))
                  \<and> (\<not> present (h ! a) k \<longrightarrow> \<not> present (h' ! a') k))"
proof -
  let ?v = "h ! a" and ?w = "both_hands (h ! a)"
  have r: "normalize_landmarks h a = Inr (h @ [?w], length h)"
    using assms(2) by (rule normalize_landmarks_126)
  have w: "(h @ [?w]) ! length h = ?w" by simp
  have p: "present ?w k \<longleftrightarrow> (\<exists>i<21. \<exists>c<3. ?v ! (k * 63 + 3 * i + c) \<noteq> ?v ! (k * 63 + c))"
    if "k < 2" for k using assms(2) that by (rule present_both_hands)
  have q: "\<not> present ?v k \<longrightarrow> \<not> present ?w k" if k: "k < 2" for k
  proof
    assume "\<not> present ?v k"
    then have z: "\<And>i c. i < 21 \<Longrightarrow> c < 3 \<Longrightarrow> ?v ! (k * 63 + 3 * i + c) = 0"
      unfolding present_triples[OF assms(2) k] by blast
    have "\<And>c. c < 3 \<Longrightarrow> ?v ! (k * 63 + c) = 0" using z[of 0] by simp
    with z show "\<not> present ?w k" unfolding p[OF k] by simp
  qed
  show ?thesis
    apply (rule exI[of _ "h @ [?w]"])
    apply (rule exI[of _ "length h"])
    unfolding w
    using r p q by blast
qed

theorem present_after_normalization_witness:
  "\<exists>h' a'. normalize_landmarks [one_landmark] 0 = Inr (h', a')
      \<and> present (h' ! a') 0 \<and> \<not> present (h' ! a') 1"
proof -
  have a: "0 < length [one_landmark]" by simp
  have l: "length ([one_landmark] ! 0) = 126" by (simp add: one_landmark_facts)
  from present_after_normalization[OF a l]
  obtain h' a' where r: "normalize_landmarks [one_landmark] 0 = Inr (h', a')"
    and k: "\<forall>k<2. (present (h' ! a') k \<longleftrightarrow>
                     (\<exists>i<21. \<exists>c<3. [one_landmark] ! 0 ! (k * 63 + 3 * i + c)
                                   \<noteq> [one_landmark] ! 0 ! (k * 63 + c)))
                \<and> (\<not> present ([one_landmark] ! 0) k \<longrightarrow> \<not> present (h' ! a') k)"
    by blast
  have d: "\<exists>i<21. \<exists>c<3. one_landmark ! (0 * 63 + 3 * i + c) \<noteq> one_landmark ! (0 * 63 + c)"
    by (rule exI[of _ 1], simp, rule exI[of _ 0], simp add: one_landmark_facts)
  have "present (h' ! a') 0" using k[rule_format, of 0] d by simp
  moreover have lt: "(1::nat) < 2" by simp
  have "\<not> present (h' ! a') 1"
    using conjunct2[OF k[rule_format, OF lt]] one_landmark_facts(3) by simp
  ultimately show ?thesis using r by blast
qed

text \<open>
  Claim C10. Normalizing the result of a normalization changes nothing: for an input
  array of 126 elements both calls return, and the second result equals the first.
\<close>

theorem normalize_landmarks_idempotent:
  assumes "a < length h" and "length (h ! a) = 126"
  shows "\<exists>h1 a1 h2 a2. normalize_landmarks h a = Inr (h1, a1)
           \<and> normalize_landmarks h1 a1 = Inr (h2, a2)
           \<and> h2 ! a2 = h1 ! a1"
proof -
  let ?w = "both_hands (h ! a)"
  let ?h1 = "h @ [?w]"
  have r1: "normalize_landmarks h a = Inr (?h1, length h)"
    using assms(2) by (rule normalize_landmarks_126)
  have w: "?h1 ! length h = ?w" by simp
  have "length (?h1 ! length h) = 126" unfolding w using assms(2) by (simp add: length_both_hands)
  from normalize_landmarks_126[OF this]
  have r2: "normalize_landmarks ?h1 (length h) = Inr (?h1 @ [both_hands ?w], length ?h1)"
    unfolding w .
  have "(?h1 @ [both_hands ?w]) ! length ?h1 = both_hands ?w"
    by (rule nth_append_length)
  then have e: "(?h1 @ [both_hands ?w]) ! length ?h1 = ?h1 ! length h"
    unfolding w both_hands_idem[OF assms(2)] .
  from r1 r2 e show ?thesis by blast
qed

theorem normalize_landmarks_idempotent_witness:
  "\<exists>h1 a1 h2 a2. normalize_landmarks [one_landmark] 0 = Inr (h1, a1)
      \<and> normalize_landmarks h1 a1 = Inr (h2, a2)
      \<and> h2 ! a2 = h1 ! a1"
proof -
  have a: "0 < length [one_landmark]" by simp
  have l: "length ([one_landmark] ! 0) = 126" by (simp add: one_landmark_facts)
  from normalize_landmarks_idempotent[OF a l] show ?thesis .
qed

subsection \<open>Vectors of any length\<close>

lemma subtract_wrist_short:
  "s \<le> length xs \<Longrightarrow> length xs < s + 3 * m \<Longrightarrow>
   subtract_wrist (map (\<lambda>i. s + 3 * i) [0..<m]) wx wy wz xs = Inl IndexError"
proof (induction m arbitrary: s xs)
  case 0
  then show ?case by simp
next
  case (Suc m)
  show ?case
  proof (cases "s + 3 \<le> length xs")
    case True
    let ?ys = "xs[s := xs ! s - wx, s + 1 := xs ! (s + 1) - wy, s + 2 := xs ! (s + 2) - wz]"
    have step: "subtract_wrist (s # map (\<lambda>i. (s + 3) + 3 * i) [0..<m]) wx wy wz xs
          = subtract_wrist (map (\<lambda>i. (s + 3) + 3 * i) [0..<m]) wx wy wz ?ys"
      using True by (simp add: isub_def)
    have a: "s + 3 \<le> length ?ys" using True by simp
    have b: "length ?ys < (s + 3) + 3 * m" using Suc.prems(2) by simp
    show ?thesis unfolding triples_Suc step using a b by (rule Suc.IH)
  next
    case False
    then show ?thesis unfolding triples_Suc by (simp add: isub_def)
  qed
qed

lemma normalize_hand_absent: "\<not> present v k \<Longrightarrow> normalize_hand k v = Inr v"
  by (simp add: normalize_hand_def present_def Let_def)

lemma normalize_hand_short:
  assumes p: "present v k" and short: "length v < k * 63 + 63"
  shows "normalize_hand k v = Inl IndexError"
proof -
  from p obtain j where "k * 63 + j < length v" unfolding present_iff by blast
  then have s: "k * 63 \<le> length v" by simp
  have "length v < k * 63 + 3 * 21" using short by simp
  with s have sw: "\<And>wx wy wz. subtract_wrist (map (\<lambda>i. k * 63 + 3 * i) [0..<21]) wx wy wz v
                     = Inl IndexError"
    by (rule subtract_wrist_short)
  from p have n: "np_any (slice v (k * 63) (k * 63 + 63))" by (simp add: present_def)
  show ?thesis
    unfolding normalize_hand_def Let_def range3_hand sw getitem_def using n
    by (simp split: sum.splits)
qed

lemma normalize_hand_cases:
  "normalize_hand k v =
     (if present v k
      then if k * 63 + 63 \<le> length v then Inr (hand_shift k v) else Inl IndexError
      else Inr v)"
proof (cases "present v k")
  case False
  then show ?thesis by (simp add: normalize_hand_absent)
next
  case True
  show ?thesis
  proof (cases "k * 63 + 63 \<le> length v")
    case long: True
    show ?thesis using normalize_hand_full[OF long] \<open>present v k\<close> long by simp
  next
    case False
    then have "length v < k * 63 + 63" by simp
    from normalize_hand_short[OF \<open>present v k\<close> this] show ?thesis
      using \<open>present v k\<close> False by simp
  qed
qed

lemma present_hand_shift_1: "present (hand_shift 0 v) 1 = present v 1"
proof -
  have "hand_shift 0 v ! (1 * 63 + j) = v ! (1 * 63 + j)" if "1 * 63 + j < length v" for j
    using that by (intro nth_hand_shift_out) simp_all
  then show ?thesis
    unfolding present_iff length_hand_shift by auto
qed

lemma normalize_hands_cases:
  "normalize_hands [0, 1] v =
     (if present v 0 \<and> length v < 63 then Inl IndexError
      else if present v 1 \<and> length v < 126 then Inl IndexError
      else Inr (both_hands v))"
proof -
  let ?v1 = "if present v 0 then hand_shift 0 v else v"
  have p1: "present ?v1 1 = present v 1" using present_hand_shift_1[of v] by simp
  have l1: "length ?v1 = length v" by (simp add: length_hand_shift)
  have h0: "normalize_hand 0 v = (if present v 0 \<and> length v < 63 then Inl IndexError else Inr ?v1)"
    unfolding normalize_hand_cases[of 0 v] by auto
  have h1: "normalize_hand 1 ?v1 =
              (if present v 1 \<and> length v < 126 then Inl IndexError
               else Inr (if present v 1 then hand_shift 1 ?v1 else ?v1))"
    unfolding normalize_hand_cases[of 1 ?v1] p1 l1 by auto
  show ?thesis
  proof (cases "present v 0 \<and> length v < 63")
    case True
    then show ?thesis unfolding normalize_hands.simps h0 by simp
  next
    case False
    have h0F: "normalize_hand 0 v = Inr ?v1"
      unfolding h0 using False by auto
    have a: "normalize_hands [0, 1] v = normalize_hands [1] ?v1"
      unfolding normalize_hands.simps(2)[of 0] h0F sum.case ..
    have b: "normalize_hands [1] ?v1 =
               (case normalize_hand 1 ?v1 of Inl e \<Rightarrow> Inl e | Inr l \<Rightarrow> Inr l)"
      unfolding normalize_hands.simps ..
    show ?thesis unfolding a b h1 using False by (auto simp: both_hands_def Let_def)
  qed
qed

lemma normalize_landmarks_eq:
  "normalize_landmarks h a =
     (case normalize_hands [0, 1] (h ! a) of
        Inl e \<Rightarrow> Inl e
      | Inr w \<Rightarrow> Inr (h @ [w], length h))"
proof -
  have e: "(h @ [h ! a]) ! length h = h ! a" by simp
  have u: "\<And>w. (h @ [h ! a])[length h := w] = h @ [w]" by simp
  show ?thesis
    unfolding normalize_landmarks_def alloc_def Let_def prod.case e u ..
qed

lemma length_padded: "length (take 126 (pad xs)) = 126"
proof -
  have "126 \<le> length (pad xs)" by (simp add: pad_def)
  then show ?thesis by simp
qed

lemma extract_landmarks_padded:
  assumes "hands \<noteq> []"
  shows "extract_landmarks h hands =
           Inr (h @ [take 126 (pad (coordinates hands)),
                     both_hands (take 126 (pad (coordinates hands)))],
                Some (Suc (length h)))"
proof -
  let ?x = "take 126 (pad (coordinates hands))"
  have "(h @ [?x]) ! length h = ?x" by (rule nth_append_length)
  then have "length ((h @ [?x]) ! length h) = 126" by (simp only: length_padded)
  from normalize_landmarks_126[OF this]
  have n: "normalize_landmarks (h @ [?x]) (length h) = Inr (h @ [?x, both_hands ?x], Suc (length h))"
    by simp
  show ?thesis
    unfolding extract_landmarks_def alloc_def Let_def prod.case n using assms by simp
qed

text \<open>
  Claim C9 says that a landmark vector whose length is not 126 is rejected. Nothing
  checks the length: \<^verbatim>\<open>normalize_landmarks\<close> normalizes a vector of 63 elements as it
  would a full one, and \<^verbatim>\<open>extract_landmarks\<close> pads the three coordinates of a single
  landmark with 123 zeros, which the normalization then moves by the wrist.
\<close>

theorem wrong_length_accepted_counterexample:
  "length short_vector = 63
   \<and> normalize_landmarks [short_vector] 0 = Inr ([short_vector, replicate 63 0], 1)
   \<and> extract_landmarks [] [[(1, 2, 3)]] = Inr ([one_landmark, padded_normalized], Some 1)"
  by code_simp

lemma nth_both_hands_present_0:
  assumes p: "present v 0" and len: "63 \<le> length v" and i: "i < 21" and c: "c < 3"
  shows "both_hands v ! (0 * 63 + 3 * i + c) = v ! (0 * 63 + 3 * i + c) - v ! (0 * 63 + c)"
proof -
  have a: "hand_shift 0 v ! (3 * i + c) = v ! (3 * i + c) - v ! c"
    using nth_hand_shift_in[of 0 v i c] len i c by simp
  have j: "3 * i + c < 63" using i c by linarith
  have b: "hand_shift 1 (hand_shift 0 v) ! (3 * i + c) = hand_shift 0 v ! (3 * i + c)"
    using j len by (intro nth_hand_shift_out) (simp_all add: length_hand_shift)
  have "both_hands v ! (3 * i + c) = v ! (3 * i + c) - v ! c"
    unfolding both_hands_def Let_def using p
    by (cases "present v 1") (simp_all only: if_True if_False a b)
  then show ?thesis by simp
qed

lemma nth_both_hands_present_1:
  assumes p: "present v 1" and len: "126 \<le> length v" and i: "i < 21" and c: "c < 3"
  shows "both_hands v ! (1 * 63 + 3 * i + c) = v ! (1 * 63 + 3 * i + c) - v ! (1 * 63 + c)"
proof -
  have j: "63 \<le> 63 + 3 * i + c \<and> 63 + 3 * i + c < 126" using i c by linarith
  have jc: "63 \<le> 63 + c \<and> 63 + c < 126" using c by linarith
  have o: "\<And>m. 63 \<le> m \<Longrightarrow> m < 126 \<Longrightarrow> hand_shift 0 v ! m = v ! m"
    using len by (intro nth_hand_shift_out) simp_all
  have o1: "hand_shift 0 v ! (63 + 3 * i + c) = v ! (63 + 3 * i + c)"
    using j by (intro o) simp_all
  have o2: "hand_shift 0 v ! (63 + c) = v ! (63 + c)"
    using jc by (intro o) simp_all
  have a: "\<And>w. 126 \<le> length w \<Longrightarrow>
             hand_shift 1 w ! (63 + 3 * i + c) = w ! (63 + 3 * i + c) - w ! (63 + c)"
    using nth_hand_shift_in[of 1 _ i c] i c by simp
  have a1: "hand_shift 1 (hand_shift 0 v) ! (63 + 3 * i + c)
              = hand_shift 0 v ! (63 + 3 * i + c) - hand_shift 0 v ! (63 + c)"
    using len by (intro a) (simp add: length_hand_shift)
  have a2: "hand_shift 1 v ! (63 + 3 * i + c) = v ! (63 + 3 * i + c) - v ! (63 + c)"
    using len by (rule a)
  have "both_hands v ! (63 + 3 * i + c) = v ! (63 + 3 * i + c) - v ! (63 + c)"
    unfolding both_hands_def Let_def using p
    by (cases "present v 0") (simp_all only: if_True if_False a1 a2 o1 o2)
  then show ?thesis by simp
qed

lemma nth_both_hands_absent:
  assumes np: "\<not> present v k" and k: "k < 2" and j: "j < 63" and len: "k * 63 + j < length v"
  shows "both_hands v ! (k * 63 + j) = v ! (k * 63 + j)"
proof -
  consider "k = 0" | "k = 1" using k by linarith
  then show ?thesis
  proof cases
    case 1
    have "hand_shift 1 v ! j = v ! j"
      using j len 1 by (intro nth_hand_shift_out) simp_all
    then show ?thesis
      unfolding both_hands_def Let_def using np 1 by simp
  next
    case 2
    have "hand_shift 0 v ! (63 + j) = v ! (63 + j)"
      using len 2 by (intro nth_hand_shift_out) simp_all
    then show ?thesis
      unfolding both_hands_def Let_def using np 2 by simp
  qed
qed

lemma nth_both_hands_beyond:
  assumes "126 \<le> j" and "j < length v"
  shows "both_hands v ! j = v ! j"
proof -
  have a: "hand_shift 0 v ! j = v ! j"
    using assms by (intro nth_hand_shift_out) simp_all
  have b: "\<And>w. length w = length v \<Longrightarrow> hand_shift 1 w ! j = w ! j"
    using assms by (intro nth_hand_shift_out) simp_all
  have b1: "hand_shift 1 (hand_shift 0 v) ! j = hand_shift 0 v ! j"
    by (intro b) (simp add: length_hand_shift)
  have b2: "hand_shift 1 v ! j = v ! j" by (intro b) simp
  show ?thesis
    unfolding both_hands_def Let_def
    by (cases "present v 0"; cases "present v 1") (simp_all only: if_True if_False a b1 b2)
qed

lemma both_hands_any_length:
  assumes ok0: "present v 0 \<Longrightarrow> 63 \<le> length v" and ok1: "present v 1 \<Longrightarrow> 126 \<le> length v"
    and k: "k < 2"
  shows "if present v k
         then (\<forall>i<21. \<forall>c<3. both_hands v ! (k * 63 + 3 * i + c)
                              = v ! (k * 63 + 3 * i + c) - v ! (k * 63 + c))
         else (\<forall>j<63. k * 63 + j < length v \<longrightarrow> both_hands v ! (k * 63 + j) = v ! (k * 63 + j))"
proof (cases "present v k")
  case False
  then show ?thesis using nth_both_hands_absent[OF False k] by simp
next
  case True
  consider "k = 0" | "k = 1" using k by linarith
  then show ?thesis
  proof cases
    case 1
    have p: "present v 0" using True 1 by simp
    show ?thesis unfolding 1 using p nth_both_hands_present_0[OF p ok0[OF p]] by simp
  next
    case 2
    have p: "present v 1" using True 2 by simp
    show ?thesis unfolding 2 using p nth_both_hands_present_1[OF p ok1[OF p]] by simp
  qed
qed

text \<open>
  Claim C9, amended. \<^verbatim>\<open>normalize_landmarks\<close> accepts an array of any length. It raises
  \<^verbatim>\<open>IndexError\<close> exactly when the slice of a hand holds a non-zero element and the
  array ends before that slice does. Otherwise it returns a new array, of the input's
  length, and leaves every array of the store, the input among them, as it was; in
  the new array each present hand is wrist-relative (the wrist's \<open>x\<close>, \<open>y\<close> and \<open>z\<close>
  subtracted from those of each of its 21 landmarks), and the elements of an absent
  hand and the elements from position 126 on are those of the input.
  When a hand was detected, \<^verbatim>\<open>extract_landmarks\<close> writes the coordinates of at most
  two hands one after the other, appends zeros up to 126 elements, keeps the first
  126, and returns what \<^verbatim>\<open>normalize_landmarks\<close> makes of that array: an array of 126
  elements, never an error.
\<close>

theorem no_length_check:
  assumes "a < length h"
  shows "(normalize_landmarks h a = Inl IndexError \<longleftrightarrow>
            (\<exists>k<2. present (h ! a) k \<and> length (h ! a) < k * 63 + 63))
       \<and> (\<forall>h' a'. normalize_landmarks h a = Inr (h', a') \<longrightarrow>
            a' = length h \<and> take (length h) h' = h \<and> h' ! a = h ! a
          \<and> length (h' ! a') = length (h ! a)
          \<and> (\<forall>k<2. if present (h ! a) k
                   then (\<forall>i<21. \<forall>c<3. h' ! a' ! (k * 63 + 3 * i + c)
                                        = h ! a ! (k * 63 + 3 * i + c) - h ! a ! (k * 63 + c))
                   else (\<forall>j<63. k * 63 + j < length (h ! a) \<longrightarrow>
                                h' ! a' ! (k * 63 + j) = h ! a ! (k * 63 + j)))
          \<and> (\<forall>j. 126 \<le> j \<and> j < length (h ! a) \<longrightarrow> h' ! a' ! j = h ! a ! j))
       \<and> (hands \<noteq> [] \<longrightarrow>
            (\<exists>h' a'. extract_landmarks h hands = Inr (h', Some a')
               \<and> normalize_landmarks
                    (h @ [take 126 (coordinates hands
                                     @ replicate (126 - length (coordinates hands)) 0)])
                    (length h) = Inr (h', a')
               \<and> length (h' ! a') = 126))"
proof -
  let ?v = "h ! a"
  let ?bad = "(present ?v 0 \<and> length ?v < 63) \<or> (present ?v 1 \<and> length ?v < 126)"
  have bad: "(\<exists>k<2. present ?v k \<and> length ?v < k * 63 + 63) \<longleftrightarrow> ?bad"
  proof
    assume "\<exists>k<2. present ?v k \<and> length ?v < k * 63 + 63"
    then obtain k where k: "k < 2" "present ?v k" "length ?v < k * 63 + 63" by blast
    from k(1) consider "k = 0" | "k = 1" by linarith
    then show ?bad using k(2,3) by cases simp_all
  next
    assume ?bad
    then show "\<exists>k<2. present ?v k \<and> length ?v < k * 63 + 63"
    proof
      assume "present ?v 0 \<and> length ?v < 63"
      then show ?thesis by (intro exI[of _ 0]) simp
    next
      assume "present ?v 1 \<and> length ?v < 126"
      then show ?thesis by (intro exI[of _ 1]) simp
    qed
  qed
  have r: "normalize_landmarks h a =
             (if ?bad then Inl IndexError else Inr (h @ [both_hands ?v], length h))"
    unfolding normalize_landmarks_eq normalize_hands_cases by auto
  have 1: "normalize_landmarks h a = Inl IndexError \<longleftrightarrow>
             (\<exists>k<2. present ?v k \<and> length ?v < k * 63 + 63)"
    unfolding bad r by simp
  have 2: "a' = length h \<and> take (length h) h' = h \<and> h' ! a = ?v
          \<and> length (h' ! a') = length ?v
          \<and> (\<forall>k<2. if present ?v k
                   then (\<forall>i<21. \<forall>c<3. h' ! a' ! (k * 63 + 3 * i + c)
                                        = ?v ! (k * 63 + 3 * i + c) - ?v ! (k * 63 + c))
                   else (\<forall>j<63. k * 63 + j < length ?v \<longrightarrow>
                                h' ! a' ! (k * 63 + j) = ?v ! (k * 63 + j)))
          \<and> (\<forall>j. 126 \<le> j \<and> j < length ?v \<longrightarrow> h' ! a' ! j = ?v ! j)"
    if ret: "normalize_landmarks h a = Inr (h', a')" for h' a'
  proof -
    from ret have nb: "\<not> ?bad" unfolding r by (auto split: if_splits)
    from nb have "normalize_landmarks h a = Inr (h @ [both_hands ?v], length h)"
      unfolding r by (simp only: if_False)
    with ret have h': "h' = h @ [both_hands ?v]" and a': "a' = length h"
      by simp_all
    have w: "h' ! a' = both_hands ?v" unfolding h' a' by simp
    have ok0: "present ?v 0 \<Longrightarrow> 63 \<le> length ?v" using nb by auto
    have ok1: "present ?v 1 \<Longrightarrow> 126 \<le> length ?v" using nb by auto
    have t: "take (length h) h' = h" unfolding h' by simp
    have i: "h' ! a = ?v" unfolding h' using assms by (simp add: nth_append)
    have l: "length (h' ! a') = length ?v" unfolding w by (rule length_both_hands)
    have e: "\<forall>k<2. if present ?v k
                   then (\<forall>i<21. \<forall>c<3. h' ! a' ! (k * 63 + 3 * i + c)
                                        = ?v ! (k * 63 + 3 * i + c) - ?v ! (k * 63 + c))
                   else (\<forall>j<63. k * 63 + j < length ?v \<longrightarrow>
                                h' ! a' ! (k * 63 + j) = ?v ! (k * 63 + j))"
      unfolding w using both_hands_any_length[OF ok0 ok1] by blast
    have b: "\<forall>j. 126 \<le> j \<and> j < length ?v \<longrightarrow> h' ! a' ! j = ?v ! j"
      unfolding w using nth_both_hands_beyond by blast
    from a' t i l e b show ?thesis by blast
  qed
  have 3: "hands \<noteq> [] \<longrightarrow>
            (\<exists>h' a'. extract_landmarks h hands = Inr (h', Some a')
               \<and> normalize_landmarks
                    (h @ [take 126 (coordinates hands
                                     @ replicate (126 - length (coordinates hands)) 0)])
                    (length h) = Inr (h', a')
               \<and> length (h' ! a') = 126)"
  proof
    assume ne: "hands \<noteq> []"
    let ?x = "take 126 (pad (coordinates hands))"
    let ?h' = "h @ [?x, both_hands ?x]"
    have x: "take 126 (coordinates hands @ replicate (126 - length (coordinates hands)) 0) = ?x"
      by (simp only: pad_def)
    have "(h @ [?x]) ! length h = ?x" by (rule nth_append_length)
    then have "length ((h @ [?x]) ! length h) = 126" by (simp only: length_padded)
    from normalize_landmarks_126[OF this]
    have n: "normalize_landmarks (h @ [?x]) (length h) = Inr (?h', Suc (length h))"
      by simp
    have e: "extract_landmarks h hands = Inr (?h', Some (Suc (length h)))"
      using ne by (rule extract_landmarks_padded)
    have "?h' ! Suc (length h) = both_hands ?x" by (simp add: nth_append)
    then have l: "length (?h' ! Suc (length h)) = 126"
      by (simp only: length_both_hands length_padded)
    show "\<exists>h' a'. extract_landmarks h hands = Inr (h', Some a')
               \<and> normalize_landmarks
                    (h @ [take 126 (coordinates hands
                                     @ replicate (126 - length (coordinates hands)) 0)])
                    (length h) = Inr (h', a')
               \<and> length (h' ! a') = 126"
      unfolding x using e n l by blast
  qed
  from 1 2 3 show ?thesis by blast
qed

theorem no_length_check_witness:
  "normalize_landmarks [[1]] 0 = Inl IndexError
   \<and> (\<exists>h' a'. extract_landmarks [[1]] [[(1, 2, 3)]] = Inr (h', Some a') \<and> length (h' ! a') = 126)
   \<and> (\<exists>h' a'. normalize_landmarks [short_vector] 0 = Inr (h', a')
         \<and> length (h' ! a') = 63 \<and> h' ! a' ! 3 = 0)"
proof -
  have a: "0 < length [[1::real]]" by simp
  have p: "present ([[1]] ! 0) 0" by code_simp
  have b: "\<exists>k<2. present ([[1]] ! 0) k \<and> length ([[1::real]] ! 0) < k * 63 + 63"
    using p by (intro exI[of _ 0]) simp
  have ne: "[[(1::real, 2::real, 3::real)]] \<noteq> []" by simp
  have 1: "normalize_landmarks [[1]] 0 = Inl IndexError"
    using conjunct1[OF no_length_check[OF a, of "[[(1, 2, 3)]]"]] b by simp
  have 2: "\<exists>h' a'. extract_landmarks [[1]] [[(1, 2, 3)]] = Inr (h', Some a') \<and> length (h' ! a') = 126"
    using conjunct2[OF conjunct2[OF no_length_check[OF a, of "[[(1, 2, 3)]]"]]] ne by blast
  have a3: "0 < length [short_vector]" by simp
  have r: "normalize_landmarks [short_vector] 0 = Inr ([short_vector, replicate 63 0], 1)"
    by code_simp
  from conjunct1[OF conjunct2[OF no_length_check[OF a3, of "[]"]], rule_format, OF r]
  have "length ([short_vector, replicate 63 0] ! 1) = length ([short_vector] ! 0)" by blast
  then have 3: "\<exists>h' a'. normalize_landmarks [short_vector] 0 = Inr (h', a')
         \<and> length (h' ! a') = 63 \<and> h' ! a' ! 3 = 0"
    using r by (intro exI[of _ "[short_vector, replicate 63 0]"] exI[of _ 1])
               (simp add: short_vector_def)
  from 1 2 3 show ?thesis by blast
qed

end
